theory Spec2Isabelle
  imports Main "HOL-Library.Sublist"
begin

section \<open>Strings and paths\<close>

text \<open>
  The program is \<^verbatim>\<open>src/extract.py\<close>. Strings are \<open>char list\<close>. This section models the
  Python string and \<^verbatim>\<open>os.path\<close> operations that the extractor calls; paths follow
  \<^verbatim>\<open>posixpath\<close> (separator \<^verbatim>\<open>/\<close>).
\<close>

text \<open>\<^verbatim>\<open>str.lower()\<close> on ASCII letters; every other character is left as it is.\<close>

definition lower_char :: "char \<Rightarrow> char" where
  "lower_char c =
     (if (65::nat) \<le> of_char c \<and> of_char c \<le> (90::nat)
      then char_of (of_char c + (32::nat)) else c)"

definition lower :: "string \<Rightarrow> string" where
  "lower s = map lower_char s"

text \<open>\<^verbatim>\<open>s.split('.')\<close>: the pieces between the separators, never an empty list.\<close>

fun split_on :: "char \<Rightarrow> string \<Rightarrow> string list" where
  "split_on sep [] = [[]]"
| "split_on sep (c # cs) =
     (let r = split_on sep cs
      in if c = sep then [] # r else (c # hd r) # tl r)"

text \<open>\<^verbatim>\<open>ext = file.lower().split('.')[-1]\<close> (line 121).\<close>

definition ext_of :: "string \<Rightarrow> string" where
  "ext_of file = last (split_on CHR ''.'' (lower file))"

text \<open>\<^verbatim>\<open>str(counter)\<close> for a non-negative counter: its decimal digits.\<close>

definition digit_char :: "nat \<Rightarrow> char" where
  "digit_char d = char_of (48 + d)"

fun str_nat :: "nat \<Rightarrow> string" where
  "str_nat n = (if n < 10 then [digit_char n] else str_nat (n div 10) @ [digit_char (n mod 10)])"

declare str_nat.simps [simp del]

text \<open>
  \<^verbatim>\<open>os.path.join(a, b)\<close>: an absolute second component replaces the first; otherwise
  the two are put together with exactly one separator between them.
\<close>

definition path_join :: "string \<Rightarrow> string \<Rightarrow> string" where
  "path_join a b =
     (if b \<noteq> [] \<and> hd b = CHR ''/'' then b
      else if a = [] \<or> last a = CHR ''/'' then a @ b
      else a @ ''/'' @ b)"

text \<open>
  \<^verbatim>\<open>os.path.split\<close> cuts after the last separator: \<open>path_head\<close> is \<^verbatim>\<open>p[:i]\<close> and
  \<open>basename\<close> is \<^verbatim>\<open>p[i:]\<close> for \<^verbatim>\<open>i = p.rfind('/') + 1\<close>.
\<close>

definition path_head :: "string \<Rightarrow> string" where
  "path_head p = rev (dropWhile (\<lambda>c. c \<noteq> CHR ''/'') (rev p))"

definition basename :: "string \<Rightarrow> string" where
  "basename p = rev (takeWhile (\<lambda>c. c \<noteq> CHR ''/'') (rev p))"

definition rstrip_sep :: "string \<Rightarrow> string" where
  "rstrip_sep p = rev (dropWhile (\<lambda>c. c = CHR ''/'') (rev p))"

text \<open>
  \<^verbatim>\<open>os.path.dirname\<close>: the head, with its trailing separators stripped unless the head
  consists of separators only.
\<close>

definition dirname :: "string \<Rightarrow> string" where
  "dirname p =
     (let h = path_head p
      in if filter (\<lambda>c. c \<noteq> CHR ''/'') h \<noteq> [] then rstrip_sep h else h)"

text \<open>
  \<^verbatim>\<open>os.path.splitext\<close>: the extension starts at the last dot of the last path component,
  unless only dots (or nothing) come before that dot in the component.
\<close>

definition splitext :: "string \<Rightarrow> string \<times> string" where
  "splitext p =
     (let name = basename p;
          stem = rev (tl (dropWhile (\<lambda>c. c \<noteq> CHR ''.'') (rev name)));
          ext = CHR ''.'' # rev (takeWhile (\<lambda>c. c \<noteq> CHR ''.'') (rev name))
      in if CHR ''.'' \<in> set name \<and> filter (\<lambda>c. c \<noteq> CHR ''.'') stem \<noteq> []
         then (path_head p @ stem, ext) else (p, []))"

section \<open>Classification tables and rules\<close>

definition STREAM_EXTENSIONS :: "string list" where
  "STREAM_EXTENSIONS =
     [''yft'', ''ytd'', ''ydr'', ''ydd'', ''ybn'', ''ymap'', ''ytyp'',
      ''awc'', ''cut'', ''rel'', ''ynv'', ''ycd'', ''ynd'',
      ''ypdb'', ''ysc'', ''yvr'', ''xtd'']"

definition DATA_EXTENSIONS :: "string list" where
  "DATA_EXTENSIONS = [''meta'', ''xml'', ''dat'']"

definition IMPORTANT_FOLDERS :: "string list" where
  "IMPORTANT_FOLDERS = [''vehicles'', ''weapons'', ''peds'', ''props'']"

definition IGNORE_FOLDERS :: "string list" where
  "IGNORE_FOLDERS =
     [''audio'', ''lang'', ''common.rpf'',
      ''x64a.rpf'', ''x64b.rpf'', ''x64c.rpf'', ''x64d.rpf'', ''x64e.rpf'', ''x64f.rpf'',
      ''x64g.rpf'', ''dlc_patch'', ''update'', ''platform'']"

text \<open>
  Line 111: \<^verbatim>\<open>any(ignore.lower() in root.lower() for ignore in IGNORE_FOLDERS)\<close>; Python's
  \<^verbatim>\<open>in\<close> on strings is the contiguous-substring test \<open>sublist\<close>.
\<close>

definition is_ignored :: "string \<Rightarrow> bool" where
  "is_ignored root = list_ex (\<lambda>ignore. sublist (lower ignore) (lower root)) IGNORE_FOLDERS"

text \<open>Line 114.\<close>

definition is_important :: "string \<Rightarrow> bool" where
  "is_important root = list_ex (\<lambda>folder. sublist (lower folder) (lower root)) IMPORTANT_FOLDERS"

datatype bucket = Stream | Data

datatype classification = Skip | MoveTo bucket

text \<open>
  Lines 125 to 137, the decision taken for one visited file from the flag of its directory
  and its extension: a container is skipped first, then the important flag or a stream
  extension selects \<open>stream\<close>, then a data extension selects \<open>data\<close>.
\<close>

definition classify :: "bool \<Rightarrow> string \<Rightarrow> classification" where
  "classify important ext =
     (if ext = ''rpf'' then Skip
      else if important \<or> ext \<in> set STREAM_EXTENSIONS then MoveTo Stream
      else if ext \<in> set DATA_EXTENSIONS then MoveTo Data
      else Skip)"

text \<open>
  What the walk of \<open>move_files\<close> does with the file \<open>file\<close> of the directory \<open>root\<close>:
  a directory matching an ignored name is passed over as a whole (line 111), every other
  file is classified.
\<close>

datatype disposition = NotVisited | Visited classification

definition file_disposition :: "string \<Rightarrow> string \<Rightarrow> disposition" where
  "file_disposition root file =
     (if is_ignored root then NotVisited
      else Visited (classify (is_important root) (ext_of file)))"

section \<open>File system and tallies\<close>

text \<open>
  The file system is a finite table from paths to entries; a regular file carries its size in
  bytes, which is all the extractor ever reads back. The first entry for a path is the
  current one.
\<close>

datatype entry = File nat | Directory

type_synonym filesystem = "(string \<times> entry) list"

definition path_exists :: "filesystem \<Rightarrow> string \<Rightarrow> bool" where
  "path_exists fs p = (map_of fs p \<noteq> None)"

definition is_dir :: "filesystem \<Rightarrow> string \<Rightarrow> bool" where
  "is_dir fs p = (map_of fs p = Some Directory)"

text \<open>
  \<^verbatim>\<open>os.path.getsize\<close> followed by \<^verbatim>\<open>open(..., 'rb')\<close>: \<open>None\<close> stands for the
  \<^verbatim>\<open>OSError\<close> raised when the path is missing or is not a regular file.
\<close>

definition getsize :: "filesystem \<Rightarrow> string \<Rightarrow> nat option" where
  "getsize fs p = (case map_of fs p of Some (File n) \<Rightarrow> Some n | _ \<Rightarrow> None)"

definition write_file :: "filesystem \<Rightarrow> string \<Rightarrow> nat \<Rightarrow> filesystem" where
  "write_file fs p n = (p, File n) # fs"

definition is_under :: "string \<Rightarrow> string \<Rightarrow> bool" where
  "is_under d p = prefix (d @ ''/'') p"

text \<open>\<^verbatim>\<open>shutil.rmtree(d)\<close> removes the directory and everything below it.\<close>

definition rmtree :: "filesystem \<Rightarrow> string \<Rightarrow> filesystem" where
  "rmtree fs d = filter (\<lambda>e. \<not> (fst e = d \<or> is_under d (fst e))) fs"

definition makedirs :: "filesystem \<Rightarrow> string \<Rightarrow> filesystem" where
  "makedirs fs d = (d, Directory) # fs"

text \<open>The dictionary \<^verbatim>\<open>moved_files = {'stream': 0, 'data': 0, 'skipped': 0}\<close>.\<close>

record tally =
  stream :: nat
  data :: nat
  skipped :: nat

definition zero_tally :: tally where
  "zero_tally = \<lparr>stream = 0, data = 0, skipped = 0\<rparr>"

text \<open>\<^verbatim>\<open>moved_files['skipped'] += 1\<close> and \<^verbatim>\<open>moved_files[dest_dir] += 1\<close>.\<close>

definition skip_one :: "tally \<Rightarrow> tally" where
  "skip_one t = t\<lparr>skipped := skipped t + 1\<rparr>"

definition count_moved :: "bucket \<Rightarrow> tally \<Rightarrow> tally" where
  "count_moved b t =
     (case b of Stream \<Rightarrow> t\<lparr>stream := stream t + 1\<rparr> | Data \<Rightarrow> t\<lparr>data := data t + 1\<rparr>)"

text \<open>Lines 286 to 288: the three counts of a nested result are added to the caller's.\<close>

definition merge_tally :: "tally \<Rightarrow> tally \<Rightarrow> tally" where
  "merge_tally a b =
     \<lparr>stream = stream a + stream b, data = data a + data b, skipped = skipped a + skipped b\<rparr>"

section \<open>The operating system as seen by the extractor\<close>

text \<open>
  What the copy of lines 149 to 160 can do: fail before the destination is created, raise
  after the destination holds some bytes, or run to its end leaving some number of bytes
  at the destination (the size of the source when nothing goes wrong).
\<close>

datatype copy_outcome = OpenFails | CopyRaises nat | Copied nat

text \<open>
  The outcomes of \<^verbatim>\<open>subprocess.run(..., check=True, timeout=300)\<close>. A
  \<open>CalledProcessError\<close> carries the bytes of the decoder's error stream and the text of
  \<^verbatim>\<open>str(e)\<close>; the last constructor carries \<^verbatim>\<open>str(e)\<close> of any other exception.
\<close>

datatype run_result =
    Completed
  | TimeoutExpired
  | CalledProcessError string string
  | FileNotFoundError
  | OtherException string

datatype exn = NotADirectoryError string | ListdirError string

text \<open>
  The environment: the behaviour of the copy, of the directory listings and of the external
  decoder (which may change the file system). All are parameters of the model.
\<close>

record os_env =
  copy_io :: "filesystem \<Rightarrow> string \<Rightarrow> string \<Rightarrow> copy_outcome"
  os_walk :: "filesystem \<Rightarrow> string \<Rightarrow> (string \<times> string list) list"
  os_listdir :: "filesystem \<Rightarrow> string \<Rightarrow> exn + string list"
  run_decoder :: "filesystem \<Rightarrow> string \<Rightarrow> run_result \<times> filesystem"

section \<open>Choosing a free destination name\<close>

definition names_bound :: "filesystem \<Rightarrow> nat" where
  "names_bound fs = 10 ^ sum_list (map (\<lambda>e. length (fst e)) fs)"

lemma str_nat_bound: "n < 10 ^ length (str_nat n)"
proof (induction n rule: str_nat.induct)
  case (1 n)
  show ?case
  proof (cases "n < 10")
    case True
    then show ?thesis by (simp add: str_nat.simps [of n])
  next
    case False
    with 1 have "n div 10 < 10 ^ length (str_nat (n div 10))" by simp
    then have "n < 10 * 10 ^ length (str_nat (n div 10))" by linarith
    with False show ?thesis by (simp add: str_nat.simps [of n])
  qed
qed

lemma path_exists_length:
  assumes "path_exists fs p"
  shows "length p \<le> sum_list (map (\<lambda>e. length (fst e)) fs)"
proof -
  from assms obtain e where "(p, e) \<in> set fs"
    by (auto simp: path_exists_def dest: map_of_SomeD)
  then have "length p \<in> set (map (\<lambda>e. length (fst e)) fs)"
    by force
  then show ?thesis by (simp add: member_le_sum_list)
qed

lemma length_path_join: "length b \<le> length (path_join a b)"
  by (simp add: path_join_def)

lemma beyond_bound_free:
  assumes "names_bound fs \<le> k"
  shows "\<not> path_exists fs (path_join d (base @ ''_'' @ str_nat k @ ext))"
proof
  assume ex: "path_exists fs (path_join d (base @ ''_'' @ str_nat k @ ext))"
  let ?m = "sum_list (map (\<lambda>e. length (fst e)) fs)"
  have "length (str_nat k) \<le> length (path_join d (base @ ''_'' @ str_nat k @ ext))"
    using length_path_join [of "base @ ''_'' @ str_nat k @ ext" d] by simp
  also have "\<dots> \<le> ?m" using ex by (rule path_exists_length)
  finally have "(10::nat) ^ length (str_nat k) \<le> 10 ^ ?m" by simp
  with str_nat_bound [of k] assms show False by (simp add: names_bound_def)
qed

text \<open>
  The loop of lines 142 to 145. It ends because the names it tries grow with the counter
  while the table is finite.
\<close>

function free_dest :: "filesystem \<Rightarrow> string \<Rightarrow> string \<Rightarrow> string \<Rightarrow> nat \<Rightarrow> string" where
  "free_dest fs base_name extension dest_path counter =
     (if path_exists fs dest_path
      then free_dest fs base_name extension
             (path_join (dirname dest_path) (base_name @ ''_'' @ str_nat counter @ extension))
             (counter + 1)
      else dest_path)"
  by pat_completeness auto
termination
proof (relation "measure (\<lambda>(fs, b, e, p, k).
          if k \<le> names_bound fs then names_bound fs - k + 2
          else if path_exists fs p then 1 else 0)", goal_cases)
  case 1
  show ?case by simp
next
  case (2 fs b e p k)
  show ?case
  proof (cases "k < names_bound fs")
    case True
    then show ?thesis by auto
  next
    case False
    then have "names_bound fs \<le> k" by simp
    from beyond_bound_free [OF this] 2 False show ?thesis by auto
  qed
qed

declare free_dest.simps [simp del]

text \<open>Lines 139 to 145.\<close>

definition choose_dest :: "filesystem \<Rightarrow> string \<Rightarrow> string \<Rightarrow> string" where
  "choose_dest fs dest_path file =
     (if path_exists fs dest_path
      then (let (base_name, extension) = splitext file
            in free_dest fs base_name extension dest_path 1)
      else dest_path)"

section \<open>The consolidation pass\<close>

record move_state =
  moved :: tally
  fsys :: filesystem

definition bucket_dir :: "string \<Rightarrow> string \<Rightarrow> bucket \<Rightarrow> string" where
  "bucket_dir stream_dir data_dir b = (case b of Stream \<Rightarrow> stream_dir | Data \<Rightarrow> data_dir)"

text \<open>
  The body of the inner loop, lines 121 to 179, for one file of the directory \<open>root\<close>.
  Every exception raised inside the \<^verbatim>\<open>try\<close> block ends in the handler of line 176, which
  counts the file as skipped and goes on. The progress callback and the printed messages
  are left out.
\<close>

definition process_file ::
  "os_env \<Rightarrow> string \<Rightarrow> string \<Rightarrow> string \<Rightarrow> bool \<Rightarrow> move_state \<Rightarrow> string \<Rightarrow> move_state" where
  "process_file env stream_dir data_dir root important st file =
     (let ext = ext_of file;
          src_path = path_join root file
      in case classify important ext of
           Skip \<Rightarrow> st\<lparr>moved := skip_one (moved st)\<rparr>
         | MoveTo b \<Rightarrow>
             (let dest_path =
                    choose_dest (fsys st) (path_join (bucket_dir stream_dir data_dir b) file) file
              in case getsize (fsys st) src_path of
                   None \<Rightarrow> st\<lparr>moved := skip_one (moved st)\<rparr>
                 | Some src_size \<Rightarrow>
                     (case copy_io env (fsys st) src_path dest_path of
                        OpenFails \<Rightarrow> st\<lparr>moved := skip_one (moved st)\<rparr>
                      | CopyRaises n \<Rightarrow>
                          \<lparr>moved = skip_one (moved st),
                           fsys = write_file (fsys st) dest_path n\<rparr>
                      | Copied n \<Rightarrow>
                          (let fs' = write_file (fsys st) dest_path n
                           in case getsize fs' dest_path of
                                None \<Rightarrow> \<lparr>moved = skip_one (moved st), fsys = fs'\<rparr>
                              | Some dest_size \<Rightarrow>
                                  if src_size \<noteq> dest_size
                                  then \<lparr>moved = skip_one (moved st), fsys = fs'\<rparr>
                                  else \<lparr>moved = count_moved b (moved st), fsys = fs'\<rparr>))))"

text \<open>The body of the outer loop, lines 111 to 116, for one tuple of the walk.\<close>

definition process_root ::
  "os_env \<Rightarrow> string \<Rightarrow> string \<Rightarrow> move_state \<Rightarrow> string \<times> string list \<Rightarrow> move_state" where
  "process_root env stream_dir data_dir st rf =
     (let root = fst rf; files = snd rf
      in if is_ignored root then st
         else foldl (process_file env stream_dir data_dir root (is_important root)) st files)"

text \<open>
  \<open>move_files\<close>, lines 100 to 181. The argument \<open>walk\<close> is the sequence of
  \<^verbatim>\<open>(root, files)\<close> that \<^verbatim>\<open>os.walk(base_dir)\<close> yields; the result is the tally and the
  file system left behind.
\<close>

definition move_files ::
  "os_env \<Rightarrow> (string \<times> string list) list \<Rightarrow> string \<Rightarrow> string \<Rightarrow> filesystem
     \<Rightarrow> tally \<times> filesystem" where
  "move_files env walk stream_dir data_dir fs =
     (let moved_files = zero_tally;
          total_files = sum_list (map (\<lambda>rf. length (snd rf)) walk)
      in if total_files = 0 then (moved_files, fs)
         else (let st = foldl (process_root env stream_dir data_dir)
                          \<lparr>moved = moved_files, fsys = fs\<rparr> walk
               in (moved st, fsys st)))"

section \<open>The recursive extractor\<close>

text \<open>
  \<open>ensure_clean_dirs\<close>, lines 88 to 98: each bucket directory is removed with everything
  below it when it exists, then created. \<^verbatim>\<open>shutil.rmtree\<close> raises when the path is not a
  directory; the exception leaves the function with the file system as it is by then.
\<close>

definition clean_dir :: "filesystem \<Rightarrow> string \<Rightarrow> exn + filesystem" where
  "clean_dir fs directory =
     (if path_exists fs directory
      then (if is_dir fs directory then Inr (makedirs (rmtree fs directory) directory)
            else Inl (NotADirectoryError directory))
      else Inr (makedirs fs directory))"

definition ensure_clean_dirs ::
  "filesystem \<Rightarrow> string \<Rightarrow> (exn \<times> filesystem) + (filesystem \<times> string \<times> string)" where
  "ensure_clean_dirs fs base_path =
     (let stream_dir = path_join base_path ''stream'';
          data_dir = path_join base_path ''data''
      in case clean_dir fs stream_dir of
           Inl e \<Rightarrow> Inl (e, fs)
         | Inr fs1 \<Rightarrow>
             (case clean_dir fs1 data_dir of
                Inl e \<Rightarrow> Inl (e, fs1)
              | Inr fs2 \<Rightarrow> Inr (fs2, stream_dir, data_dir)))"

text \<open>Lines 251 to 255.\<close>

definition prepare_buckets ::
  "filesystem \<Rightarrow> string \<Rightarrow> bool \<Rightarrow> (exn \<times> filesystem) + (filesystem \<times> string \<times> string)" where
  "prepare_buckets fs output_dir is_nested =
     (if \<not> is_nested then ensure_clean_dirs fs output_dir
      else Inr (fs, path_join output_dir ''stream'', path_join output_dir ''data''))"

text \<open>Lines 190 and 294: the scratch directory of a nested container.\<close>

definition temp_extract_dir :: "string \<Rightarrow> string" where
  "temp_extract_dir rpf_file =
     path_join (dirname rpf_file) (''_temp_'' @ basename rpf_file @ ''_extract'')"

text \<open>
  Lines 228 to 249: the first existing candidate, else the first directory listed beside
  the container that is not a bucket. \<open>Inr None\<close> is the "no extracted content" return.
\<close>

definition find_base_dir ::
  "os_env \<Rightarrow> filesystem \<Rightarrow> string \<Rightarrow> string \<Rightarrow> exn + string option" where
  "find_base_dir env fs rpf_file extraction_dir =
     (let rpf_dir = dirname rpf_file;
          possible_dirs =
            [extraction_dir,
             path_join rpf_dir ''dlc'',
             path_join rpf_dir (fst (splitext (basename rpf_file)))];
          base_dir = find (path_exists fs) possible_dirs;
          checked = (\<lambda>b. case b of
                       None \<Rightarrow> None
                     | Some d \<Rightarrow> if d = [] \<or> \<not> path_exists fs d then None else Some d)
      in if base_dir = None \<or> base_dir = Some []
         then (case os_listdir env fs rpf_dir of
                 Inl e \<Rightarrow> Inl e
               | Inr items \<Rightarrow>
                   (case find (\<lambda>item. is_dir fs (path_join rpf_dir item)
                                 \<and> item \<notin> set [''stream'', ''data'']) items of
                      None \<Rightarrow> Inr (checked base_dir)
                    | Some item \<Rightarrow> Inr (checked (Some (path_join rpf_dir item)))))
         else Inr (checked base_dir))"

text \<open>Lines 264 to 268: the nested containers of the extracted tree, in walk order.\<close>

definition find_nested_rpfs :: "(string \<times> string list) list \<Rightarrow> string list" where
  "find_nested_rpfs walk =
     concat (map (\<lambda>rf. map (path_join (fst rf))
                          (filter (\<lambda>f. suffix ''.rpf'' (lower f)) (snd rf))) walk)"

text \<open>
  Lines 285 to 292: what the caller keeps of a nested call. A nested call that returned no
  result (\<open>None\<close>) adds nothing.
\<close>

definition absorb ::
  "tally \<Rightarrow> string list \<Rightarrow> string \<Rightarrow> tally option \<Rightarrow> string list \<Rightarrow> tally \<times> string list" where
  "absorb moved_files extracted nested_rpf nested_result nested_extracted =
     (case nested_result of
        None \<Rightarrow> (moved_files, extracted)
      | Some r \<Rightarrow>
          (merge_tally moved_files r,
           if stream r > 0 \<or> data r > 0
           then (extracted @ [nested_rpf]) @ nested_extracted
           else extracted))"

text \<open>
  Lines 294 to 299: the scratch directory of the nested container is removed when it
  exists; a failure of the removal (the path is not a directory) is only printed.
\<close>

definition cleanup_nested :: "filesystem \<Rightarrow> string \<Rightarrow> filesystem" where
  "cleanup_nested fs nested_rpf =
     (let nested_extract_dir = temp_extract_dir nested_rpf
      in if path_exists fs nested_extract_dir \<and> is_dir fs nested_extract_dir
         then rmtree fs nested_extract_dir else fs)"

text \<open>
  What a call of \<open>extract_rpf_recursive\<close> gives back: the triple of result, error message
  and absorbed containers, or an exception that leaves the function.
\<close>

datatype ret = Raised exn | Returned "tally option" "string option" "string list"

text \<open>
  The loop of lines 273 to 299 over the nested containers; \<open>recurse\<close> is the recursive
  call of line 281. \<open>None\<close> means that the recursion did not come back.
\<close>

fun nested_loop ::
  "(string \<Rightarrow> filesystem \<Rightarrow> (ret \<times> filesystem) option) \<Rightarrow> string list \<Rightarrow> tally \<Rightarrow> string list
     \<Rightarrow> filesystem \<Rightarrow> (ret \<times> filesystem) option" where
  "nested_loop recurse [] moved_files extracted fs =
     Some (Returned (Some moved_files) None extracted, fs)"
| "nested_loop recurse (nested_rpf # rest) moved_files extracted fs =
     (case recurse nested_rpf fs of
        None \<Rightarrow> None
      | Some (Raised e, fs1) \<Rightarrow> Some (Raised e, fs1)
      | Some (Returned nested_result nested_error nested_extracted, fs1) \<Rightarrow>
          (let acc = absorb moved_files extracted nested_rpf nested_result nested_extracted
           in nested_loop recurse rest (fst acc) (snd acc) (cleanup_nested fs1 nested_rpf)))"

text \<open>
  \<^verbatim>\<open>e.stderr.decode('utf-8', errors='ignore')\<close> (line 221). A text is kept as its UTF-8
  bytes, so decoding keeps the well-formed byte sequences and drops every byte that is not
  part of one. \<open>tail_ranges\<close> gives, for a leading byte, the ranges in which the bytes that
  follow it must lie (none for a byte that cannot start a sequence), and \<open>follows\<close> tests
  them.
\<close>

fun follows :: "(nat \<times> nat) list \<Rightarrow> string \<Rightarrow> bool" where
  "follows [] bs = True"
| "follows (r # rs) [] = False"
| "follows (r # rs) (b # bs) = (fst r \<le> of_char b \<and> of_char b \<le> snd r \<and> follows rs bs)"

definition tail_ranges :: "char \<Rightarrow> (nat \<times> nat) list option" where
  "tail_ranges b =
     (let n = (of_char b :: nat)
      in if n \<le> 0x7F then Some []
         else if 0xC2 \<le> n \<and> n \<le> 0xDF then Some [(0x80, 0xBF)]
         else if n = 0xE0 then Some [(0xA0, 0xBF), (0x80, 0xBF)]
         else if 0xE1 \<le> n \<and> n \<le> 0xEC then Some [(0x80, 0xBF), (0x80, 0xBF)]
         else if n = 0xED then Some [(0x80, 0x9F), (0x80, 0xBF)]
         else if n = 0xEE \<or> n = 0xEF then Some [(0x80, 0xBF), (0x80, 0xBF)]
         else if n = 0xF0 then Some [(0x90, 0xBF), (0x80, 0xBF), (0x80, 0xBF)]
         else if 0xF1 \<le> n \<and> n \<le> 0xF3 then Some [(0x80, 0xBF), (0x80, 0xBF), (0x80, 0xBF)]
         else if n = 0xF4 then Some [(0x80, 0x8F), (0x80, 0xBF), (0x80, 0xBF)]
         else None)"

function decode_utf8 :: "string \<Rightarrow> string" where
  "decode_utf8 [] = []"
| "decode_utf8 (b # bs) =
     (case tail_ranges b of
        None \<Rightarrow> decode_utf8 bs
      | Some rs \<Rightarrow>
          if follows rs bs
          then (b # take (length rs) bs) @ decode_utf8 (drop (length rs) bs)
          else decode_utf8 bs)"
  by pat_completeness auto
termination
  by (relation "measure length") auto

text \<open>Lines 218 to 226: the early returns after a failed decoder run.\<close>

definition decoder_error :: "run_result \<Rightarrow> string" where
  "decoder_error r =
     (case r of
        TimeoutExpired \<Rightarrow> ''Extraction timed out (5 minutes limit)''
      | CalledProcessError err str_e \<Rightarrow>
          ''Extraction failed:'' @ [CHR 0x0A] @ (if err \<noteq> [] then decode_utf8 err else str_e)
      | FileNotFoundError \<Rightarrow> ''Extraction tool not found. Please check the tool path.''
      | OtherException str_e \<Rightarrow> ''Unexpected error during extraction: '' @ str_e
      | Completed \<Rightarrow> [])"

text \<open>
  \<open>extract_rpf_recursive\<close>, lines 183 to 301. The first argument bounds the depth of the
  recursion into nested containers: \<open>None\<close> means that the bound was reached. The decoder
  is part of the environment; the unused \<^verbatim>\<open>tool_type\<close> and the progress callback are left
  out.
\<close>

fun extract_rpf_recursive ::
  "nat \<Rightarrow> os_env \<Rightarrow> string \<Rightarrow> string \<Rightarrow> bool \<Rightarrow> filesystem \<Rightarrow> (ret \<times> filesystem) option" where
  "extract_rpf_recursive 0 env rpf_file output_dir is_nested fs = None"
| "extract_rpf_recursive (Suc depth) env rpf_file output_dir is_nested fs =
     (let extraction_dir =
            (if is_nested then temp_extract_dir rpf_file
             else path_join (dirname rpf_file) ''dlc'');
          run = run_decoder env fs rpf_file;
          fs1 = snd run
      in if fst run \<noteq> Completed
         then Some (Returned None (Some (decoder_error (fst run))) [], fs1)
         else
           (case find_base_dir env fs1 rpf_file extraction_dir of
              Inl e \<Rightarrow> Some (Raised e, fs1)
            | Inr None \<Rightarrow>
                Some (Returned None
                        (Some (''No extracted content found. The RPF file may be empty ''
                               @ ''or in an unsupported format.'')) [], fs1)
            | Inr (Some base_dir) \<Rightarrow>
                (case prepare_buckets fs1 output_dir is_nested of
                   Inl (e, fs2) \<Rightarrow> Some (Raised e, fs2)
                 | Inr (fs2, stream_dir, data_dir) \<Rightarrow>
                     (let mv = move_files env (os_walk env fs2 base_dir) stream_dir data_dir fs2;
                          fs3 = snd mv;
                          nested_rpfs = find_nested_rpfs (os_walk env fs3 base_dir)
                      in nested_loop
                           (\<lambda>nested_rpf fs'.
                              extract_rpf_recursive depth env nested_rpf output_dir True fs')
                           nested_rpfs (fst mv) [] fs3))))"

section \<open>Bucket contents\<close>



section \<open>An environment for running the model\<close>

text \<open>
  An environment in which nothing fails: the copy is exact, the listings are empty and the
  decoder succeeds without touching the file system. The examples below start from it.
\<close>

definition quiet_env :: os_env where
  "quiet_env =
     \<lparr>copy_io = (\<lambda>fs src dst. case getsize fs src of None \<Rightarrow> OpenFails | Some n \<Rightarrow> Copied n),
      os_walk = (\<lambda>fs d. []),
      os_listdir = (\<lambda>fs d. Inr []),
      run_decoder = (\<lambda>fs rpf. (Completed, fs))\<rparr>"

section \<open>Facts about strings\<close>

lemma lower_char_dot: "lower_char c = CHR ''.'' \<longleftrightarrow> c = CHR ''.''"
proof (cases "(65::nat) \<le> of_char c \<and> of_char c \<le> (90::nat)")
  case True
  then have "of_char (lower_char c) = (of_char c + 32 :: nat)"
    by (simp add: lower_char_def)
  with True have "of_char (lower_char c) \<noteq> (46::nat)" "of_char c \<noteq> (46::nat)" by simp_all
  then show ?thesis by auto
next
  case False
  then show ?thesis by (auto simp: lower_char_def)
qed

lemma dot_in_lower: "CHR ''.'' \<in> set (lower s) \<longleftrightarrow> CHR ''.'' \<in> set s"
proof -
  have "CHR ''.'' = lower_char c \<longleftrightarrow> c = CHR ''.''" for c
    using lower_char_dot [of c] by auto
  then show ?thesis by (induction s) (auto simp: lower_def)
qed

lemma lower_append: "lower (a @ b) = lower a @ lower b"
  by (simp add: lower_def)

lemma lower_dot: "lower (CHR ''.'' # s) = CHR ''.'' # lower s"
  by (simp add: lower_def lower_char_def)

lemma split_on_ne: "split_on sep s \<noteq> []"
  by (induction s) (auto simp: Let_def)

lemma split_on_nodot: "sep \<notin> set s \<Longrightarrow> split_on sep s = [s]"
  by (induction s) (auto simp: Let_def)

lemma split_on_has_sep: "tl (split_on sep (pre @ sep # suf)) \<noteq> []"
  by (induction pre) (auto simp: Let_def split_on_ne)

lemma last_split_on_append:
  "last (split_on sep (pre @ sep # suf)) = last (split_on sep suf)"
proof (induction pre)
  case Nil
  then show ?case by (simp add: Let_def split_on_ne)
next
  case (Cons a pre)
  then show ?case
    using split_on_has_sep [of sep pre suf]
    by (auto simp: Let_def last_tl)
qed

lemma ext_of_nodot: "CHR ''.'' \<notin> set file \<Longrightarrow> ext_of file = lower file"
  by (simp add: ext_of_def split_on_nodot dot_in_lower)

lemma ext_of_last_dot:
  "CHR ''.'' \<notin> set suf \<Longrightarrow> ext_of (pre @ CHR ''.'' # suf) = lower suf"
  by (simp add: ext_of_def lower_append lower_dot last_split_on_append split_on_nodot dot_in_lower)

lemma merge_zero: "merge_tally m zero_tally = m"
  by (simp add: merge_tally_def zero_tally_def)

section \<open>Classification\<close>

text \<open>
  C1, as the code has it. The claim that every file of a directory matching an important
  folder name is classified Stream whatever its extension fails twice: a container
  (extension \<open>rpf\<close>) is skipped before the important flag is looked at, and a directory
  that also matches an ignored name is never visited.
\<close>

theorem important_folder_counterexample:
  "(is_important ''dlc/vehicles''
      \<and> file_disposition ''dlc/vehicles'' ''a.rpf'' = Visited Skip)
   \<and> (is_important ''dlc/audio/vehicles''
      \<and> file_disposition ''dlc/audio/vehicles'' ''a.yft'' = NotVisited)"
  by code_simp

text \<open>
  C1, amended: a file whose directory matches an important folder name and no ignored folder
  name, and whose extension is not \<open>rpf\<close>, is classified Stream, also when its extension
  is not a stream extension.
\<close>

theorem important_folder_stream:
  assumes "is_important root" and "\<not> is_ignored root" and "ext_of file \<noteq> ''rpf''"
  shows "file_disposition root file = Visited (MoveTo Stream)"
  using assms by (simp add: file_disposition_def classify_def)

theorem important_folder_stream_witness:
  "is_important ''dlc/vehicles'' \<and> \<not> is_ignored ''dlc/vehicles''
   \<and> ext_of ''readme.txt'' \<noteq> ''rpf'' \<and> ext_of ''readme.txt'' \<notin> set STREAM_EXTENSIONS
   \<and> file_disposition ''dlc/vehicles'' ''readme.txt'' = Visited (MoveTo Stream)"
proof -
  have a: "is_important ''dlc/vehicles''" by code_simp
  have b: "\<not> is_ignored ''dlc/vehicles''" by code_simp
  have c: "ext_of ''readme.txt'' \<noteq> ''rpf''" by code_simp
  have d: "ext_of ''readme.txt'' \<notin> set STREAM_EXTENSIONS" by code_simp
  show ?thesis
    by (intro conjI a b c d important_folder_stream [OF a b c])
qed

lemma process_root_single:
  "process_root env stream_dir data_dir st (root, [file])
     = (if is_ignored root then st
        else process_file env stream_dir data_dir root (is_important root) st file)"
  by (simp add: process_root_def)

lemma process_file_skip:
  "classify important (ext_of file) = Skip
     \<Longrightarrow> process_file env stream_dir data_dir root important st file
           = st\<lparr>moved := skip_one (moved st)\<rparr>"
  by (simp add: process_file_def)

text \<open>
  C9, as the code has it. The claim that a dotless file named \<open>meta\<close> is classified Data
  and one named \<open>rpf\<close> is skipped as a container fails where the directory decides first:
  in a directory matching an important folder name \<open>meta\<close> goes to Stream (line 129), and
  in a directory matching an ignored folder name \<open>rpf\<close> is never visited (line 111).
\<close>

theorem dotless_name_counterexample:
  "CHR ''.'' \<notin> set ''meta''
   \<and> file_disposition ''dlc/vehicles'' ''meta'' = Visited (MoveTo Stream)
   \<and> CHR ''.'' \<notin> set ''rpf''
   \<and> file_disposition ''dlc/audio'' ''rpf'' = NotVisited"
  by code_simp

text \<open>
  C9, amended: the extension used to classify a visited file is the lowercased text after the
  last dot of its name, and the whole lowercased name when the name has no dot. So, in a
  directory that matches no ignored folder name, a dotless file named \<open>meta\<close> is classified
  Data when the directory matches no important folder name and Stream when it does, one
  named \<open>yft\<close> is classified Stream, and one named \<open>rpf\<close> is skipped as a container and
  counted as skipped by the walk.
\<close>

theorem extension_rule:
  "(CHR ''.'' \<notin> set suf \<longrightarrow>
      file_disposition root (pre @ ''.'' @ suf)
        = (if is_ignored root then NotVisited
           else Visited (classify (is_important root) (lower suf))))
   \<and> (CHR ''.'' \<notin> set file \<longrightarrow>
      file_disposition root file
        = (if is_ignored root then NotVisited
           else Visited (classify (is_important root) (lower file))))
   \<and> (\<not> is_ignored root \<longrightarrow>
      file_disposition root ''meta''
        = Visited (MoveTo (if is_important root then Stream else Data)))
   \<and> (\<not> is_ignored root \<longrightarrow> file_disposition root ''yft'' = Visited (MoveTo Stream))
   \<and> (\<not> is_ignored root \<longrightarrow> file_disposition root ''rpf'' = Visited Skip)
   \<and> (\<not> is_ignored root \<longrightarrow>
      process_root env stream_dir data_dir st (root, [''rpf''])
        = st\<lparr>moved := skip_one (moved st)\<rparr>)"
proof (intro conjI impI)
  have m: "ext_of ''meta'' = ''meta''" by code_simp
  have y: "ext_of ''yft'' = ''yft''" by code_simp
  have r: "ext_of ''rpf'' = ''rpf''" by code_simp
  show "file_disposition root (pre @ ''.'' @ suf)
      = (if is_ignored root then NotVisited else Visited (classify (is_important root) (lower suf)))"
    if "CHR ''.'' \<notin> set suf"
    using that by (simp add: file_disposition_def ext_of_last_dot)
  show "file_disposition root file
      = (if is_ignored root then NotVisited else Visited (classify (is_important root) (lower file)))"
    if "CHR ''.'' \<notin> set file"
    using that by (simp add: file_disposition_def ext_of_nodot)
  show "file_disposition root ''meta'' = Visited (MoveTo (if is_important root then Stream else Data))"
    if "\<not> is_ignored root"
    using that
    by (simp add: file_disposition_def m classify_def STREAM_EXTENSIONS_def DATA_EXTENSIONS_def)
  show "file_disposition root ''yft'' = Visited (MoveTo Stream)" if "\<not> is_ignored root"
    using that by (simp add: file_disposition_def y classify_def STREAM_EXTENSIONS_def)
  show "file_disposition root ''rpf'' = Visited Skip" if "\<not> is_ignored root"
    using that by (simp add: file_disposition_def r classify_def)
  have "classify (is_important root) (ext_of ''rpf'') = Skip"
    by (simp add: r classify_def)
  then have "process_file env stream_dir data_dir root (is_important root) st ''rpf''
      = st\<lparr>moved := skip_one (moved st)\<rparr>"
    by (rule process_file_skip)
  then show "process_root env stream_dir data_dir st (root, [''rpf''])
      = st\<lparr>moved := skip_one (moved st)\<rparr>" if "\<not> is_ignored root"
    using that by (simp only: process_root_single if_False)
qed

theorem extension_rule_witness:
  "file_disposition ''dlc/x'' (''Model.v2'' @ ''.'' @ ''YDR'') = Visited (MoveTo Stream)
   \<and> file_disposition ''dlc/x'' ''META'' = Visited (MoveTo Data)
   \<and> file_disposition ''dlc/x'' ''meta'' = Visited (MoveTo Data)
   \<and> file_disposition ''dlc/vehicles'' ''meta'' = Visited (MoveTo Stream)
   \<and> file_disposition ''dlc/x'' ''yft'' = Visited (MoveTo Stream)
   \<and> file_disposition ''dlc/x'' ''rpf'' = Visited Skip"
proof -
  have a: "CHR ''.'' \<notin> set ''YDR''" by simp
  have b: "CHR ''.'' \<notin> set ''META''" by simp
  have c: "\<not> is_ignored ''dlc/x''" by code_simp
  have d: "\<not> is_important ''dlc/x''" by code_simp
  have c': "\<not> is_ignored ''dlc/vehicles''" by code_simp
  have d': "is_important ''dlc/vehicles''" by code_simp
  have l1: "classify False (lower ''YDR'') = MoveTo Stream" by code_simp
  have l2: "classify False (lower ''META'') = MoveTo Data" by code_simp
  note t = extension_rule [of "''YDR''" "''dlc/x''" "''Model.v2''" "''META''" quiet_env "[]" "[]"
      "\<lparr>moved = zero_tally, fsys = []\<rparr>"]
  note t' = extension_rule [of "''YDR''" "''dlc/vehicles''" "''Model.v2''" "''META''" quiet_env
      "[]" "[]" "\<lparr>moved = zero_tally, fsys = []\<rparr>"]
  from t [THEN conjunct1, rule_format, OF a]
  have 1: "file_disposition ''dlc/x'' (''Model.v2'' @ ''.'' @ ''YDR'') = Visited (MoveTo Stream)"
    by (simp only: c d l1 if_False)
  from t [THEN conjunct2, THEN conjunct1, rule_format, OF b]
  have 2: "file_disposition ''dlc/x'' ''META'' = Visited (MoveTo Data)"
    by (simp only: c d l2 if_False)
  from t [THEN conjunct2, THEN conjunct2, THEN conjunct1, rule_format, OF c]
  have 3: "file_disposition ''dlc/x'' ''meta'' = Visited (MoveTo Data)"
    by (simp only: d if_False)
  from t' [THEN conjunct2, THEN conjunct2, THEN conjunct1, rule_format, OF c']
  have 4: "file_disposition ''dlc/vehicles'' ''meta'' = Visited (MoveTo Stream)"
    by (simp only: d' if_True)
  note 5 = t [THEN conjunct2, THEN conjunct2, THEN conjunct2, THEN conjunct1, rule_format, OF c]
  note 6 = t [THEN conjunct2, THEN conjunct2, THEN conjunct2, THEN conjunct2, THEN conjunct1,
      rule_format, OF c]
  from 1 2 3 4 5 6 show ?thesis by (intro conjI)
qed

section \<open>Aggregation of results\<close>

text \<open>
  C8: merging two tallies adds the three counts field by field; the merge is associative
  and commutative, so three outcomes merged in any grouping or order give the same counts.
  The absorbed containers of a nested call that moved something are appended, after the
  container itself, to those recorded so far, in the order of discovery.
\<close>

theorem merge_tally_algebra:
  "stream (merge_tally a b) = stream a + stream b
   \<and> data (merge_tally a b) = data a + data b
   \<and> skipped (merge_tally a b) = skipped a + skipped b
   \<and> merge_tally (merge_tally a b) c = merge_tally a (merge_tally b c)
   \<and> merge_tally a b = merge_tally b a
   \<and> merge_tally (merge_tally a b) c = merge_tally (merge_tally c b) a
   \<and> fst (absorb a extracted nested_rpf (Some b) nested_extracted) = merge_tally a b
   \<and> (0 < stream b \<or> 0 < data b \<longrightarrow>
        snd (absorb a extracted nested_rpf (Some b) nested_extracted)
          = extracted @ [nested_rpf] @ nested_extracted)"
  by (simp add: merge_tally_def absorb_def add.commute add.left_commute)

theorem merge_tally_algebra_witness:
  "merge_tally \<lparr>stream = 1, data = 0, skipped = 2\<rparr> \<lparr>stream = 2, data = 1, skipped = 0\<rparr>
     = \<lparr>stream = 3, data = 1, skipped = 2\<rparr>
   \<and> snd (absorb \<lparr>stream = 1, data = 0, skipped = 2\<rparr> [''a.rpf'', ''b.rpf''] ''c.rpf''
             (Some \<lparr>stream = 2, data = 1, skipped = 0\<rparr>) [''d.rpf''])
       = [''a.rpf'', ''b.rpf'', ''c.rpf'', ''d.rpf'']"
  using merge_tally_algebra [of "\<lparr>stream = 1, data = 0, skipped = 2\<rparr>"
      "\<lparr>stream = 2, data = 1, skipped = 0\<rparr>" zero_tally "[''a.rpf'', ''b.rpf'']" "''c.rpf''"
      "[''d.rpf'']"]
  by (simp add: merge_tally_def)

text \<open>
  C7: after a nested call that returned, the loop goes on with the nested container's path
  and the whole list it returned appended to the caller's list exactly when the nested call
  returned a tally with a positive stream or data count; otherwise (no tally, or nothing
  moved into either bucket) the caller's list is unchanged.
\<close>

theorem absorbed_iff_moved:
  assumes "recurse nested_rpf fs = Some (Returned nested_result nested_error nested_extracted, fs1)"
  shows "nested_loop recurse (nested_rpf # rest) moved_files extracted fs =
           nested_loop recurse rest
             (case nested_result of None \<Rightarrow> moved_files | Some r \<Rightarrow> merge_tally moved_files r)
             (if (\<exists>r. nested_result = Some r \<and> (0 < stream r \<or> 0 < data r))
              then extracted @ nested_rpf # nested_extracted else extracted)
             (cleanup_nested fs1 nested_rpf)
         \<and> (snd (absorb moved_files extracted nested_rpf nested_result nested_extracted)
              = extracted @ nested_rpf # nested_extracted
            \<longleftrightarrow> (\<exists>r. nested_result = Some r \<and> (0 < stream r \<or> 0 < data r)))
         \<and> (snd (absorb moved_files extracted nested_rpf nested_result nested_extracted)
              = extracted
            \<longleftrightarrow> \<not> (\<exists>r. nested_result = Some r \<and> (0 < stream r \<or> 0 < data r)))"
  using assms by (cases nested_result) (auto simp: absorb_def)

theorem absorbed_iff_moved_witness:
  "nested_loop
       (\<lambda>rpf fs. Some (Returned (Some \<lparr>stream = 1, data = 0, skipped = 0\<rparr>) None [''in.rpf''], fs))
       [''c.rpf''] zero_tally [''a.rpf''] []
     = Some (Returned (Some \<lparr>stream = 1, data = 0, skipped = 0\<rparr>) None
               [''a.rpf'', ''c.rpf'', ''in.rpf''], [])"
  using absorbed_iff_moved [of
      "\<lambda>rpf fs. Some (Returned (Some \<lparr>stream = 1, data = 0, skipped = 0\<rparr>) None [''in.rpf''], fs)"
      "''c.rpf''" "[]" "Some \<lparr>stream = 1, data = 0, skipped = 0\<rparr>" None "[''in.rpf'']" "[]" "[]"
      zero_tally "[''a.rpf'']"]
  by (simp add: absorb_def merge_tally_def zero_tally_def cleanup_nested_def path_exists_def)

section \<open>Decoder failure\<close>

lemma decode_utf8_ascii:
  "\<forall>c\<in>set s. (of_char c :: nat) \<le> 0x7F \<Longrightarrow> decode_utf8 s = s"
  by (induction s) (auto simp: tail_ranges_def)

text \<open>
  C4, as the code has it. The claim that the error carries the decoder's error stream
  verbatim fails for a stream that is not well-formed UTF-8: line 221 decodes with
  \<^verbatim>\<open>errors='ignore'\<close>, which drops the bytes it cannot decode. Here the stream starts with
  the byte \<open>0xFF\<close>, and the message holds \<open>bad\<close> without it.
\<close>

theorem decoder_stderr_counterexample:
  "extract_rpf_recursive (Suc 0)
       (quiet_env\<lparr>run_decoder :=
          (\<lambda>fs rpf. (CalledProcessError [CHR 0xFF, CHR ''b'', CHR ''a'', CHR ''d'']
                        ''exit status 1'', fs))\<rparr>)
       ''/g/a.rpf'' ''/out'' False [(''/out/stream/old.ydr'', File 4)]
     = Some (Returned None (Some (''Extraction failed:'' @ [CHR 0x0A] @ ''bad'')) [],
             [(''/out/stream/old.ydr'', File 4)])
   \<and> \<not> sublist [CHR 0xFF, CHR ''b'', CHR ''a'', CHR ''d'']
         (''Extraction failed:'' @ [CHR 0x0A] @ ''bad'')"
proof -
  have d: "decode_utf8 [CHR 0xFF, CHR ''b'', CHR ''a'', CHR ''d''] = ''bad''" by code_simp
  have n: "\<not> sublist [CHR 0xFF, CHR ''b'', CHR ''a'', CHR ''d'']
      (''Extraction failed:'' @ [CHR 0x0A] @ ''bad'')"
    by code_simp
  have "extract_rpf_recursive (Suc 0)
       (quiet_env\<lparr>run_decoder :=
          (\<lambda>fs rpf. (CalledProcessError [CHR 0xFF, CHR ''b'', CHR ''a'', CHR ''d'']
                        ''exit status 1'', fs))\<rparr>)
       ''/g/a.rpf'' ''/out'' False [(''/out/stream/old.ydr'', File 4)]
     = Some (Returned None (Some (''Extraction failed:'' @ [CHR 0x0A] @ ''bad'')) [],
             [(''/out/stream/old.ydr'', File 4)])"
    by (simp add: quiet_env_def Let_def decoder_error_def d del: decode_utf8.simps)
  from this n show ?thesis by (rule conjI)
qed

text \<open>
  C4, amended: when the decoder exits with a non-zero status, the call returns at once, for
  any positive depth bound, with no tally (\<open>None\<close>: nothing is counted, and the caller's
  merge of it adds zero to every count), with no absorbed container, and with the file
  system exactly as the decoder left it, so that the call itself creates and changes
  nothing, the buckets included. The error message is a fixed prefix followed by the
  decoder's error stream decoded as UTF-8 with the undecodable bytes dropped (by the text of
  the exception when the stream is empty); the stream is in the message verbatim whenever it
  is well-formed UTF-8, in particular when it is ASCII.
\<close>

theorem decoder_exit_failure:
  assumes "run_decoder env fs rpf_file = (CalledProcessError err str_e, fs1)"
  shows "(let msg = ''Extraction failed:'' @ [CHR 0x0A]
                      @ (if err \<noteq> [] then decode_utf8 err else str_e)
          in extract_rpf_recursive (Suc depth) env rpf_file output_dir is_nested fs
               = Some (Returned None (Some msg) [], fs1)
             \<and> (decode_utf8 err = err \<longrightarrow> sublist err msg)
             \<and> ((\<forall>c\<in>set err. (of_char c :: nat) \<le> 0x7F) \<longrightarrow> sublist err msg)
             \<and> absorb moved_files extracted rpf_file None []
                 = (merge_tally moved_files zero_tally, extracted))"
proof -
  have a: "sublist err (''Extraction failed:'' @ [CHR 0x0A] @ err)"
    by (metis sublist_appendI append.assoc append_Nil2)
  have b: "sublist [] (''Extraction failed:'' @ [CHR 0x0A] @ str_e)"
    by simp
  have c: "decode_utf8 err = err" if "\<forall>c\<in>set err. (of_char c :: nat) \<le> 0x7F"
    using that by (rule decode_utf8_ascii)
  have run: "extract_rpf_recursive (Suc depth) env rpf_file output_dir is_nested fs
      = Some (Returned None
          (Some (''Extraction failed:'' @ [CHR 0x0A]
                   @ (if err \<noteq> [] then decode_utf8 err else str_e))) [], fs1)"
    using assms by (simp add: Let_def decoder_error_def)
  have incl: "sublist err (''Extraction failed:'' @ [CHR 0x0A]
      @ (if err \<noteq> [] then decode_utf8 err else str_e))" if "decode_utf8 err = err"
    using that a b by (cases "err = []") simp_all
  have merge: "absorb moved_files extracted rpf_file None []
      = (merge_tally moved_files zero_tally, extracted)"
    by (simp add: absorb_def merge_zero)
  show ?thesis
    unfolding Let_def using run incl c merge by blast
qed

theorem decoder_exit_failure_witness:
  "extract_rpf_recursive (Suc 0)
       (quiet_env\<lparr>run_decoder :=
                    (\<lambda>fs rpf. (CalledProcessError ''bad header'' ''exit status 1'', fs))\<rparr>)
       ''/g/a.rpf'' ''/out'' False [(''/out/stream/old.ydr'', File 4)]
     = Some (Returned None (Some (''Extraction failed:'' @ [CHR 0x0A] @ ''bad header'')) [],
             [(''/out/stream/old.ydr'', File 4)])
   \<and> sublist ''bad header'' (''Extraction failed:'' @ [CHR 0x0A] @ ''bad header'')"
proof -
  let ?env = "quiet_env\<lparr>run_decoder :=
      (\<lambda>fs rpf. (CalledProcessError ''bad header'' ''exit status 1'', fs))\<rparr>"
  let ?fs = "[(''/out/stream/old.ydr'', File 4)]"
  have h: "run_decoder ?env ?fs ''/g/a.rpf''
      = (CalledProcessError ''bad header'' ''exit status 1'', ?fs)"
    by simp
  have d: "decode_utf8 ''bad header'' = ''bad header''" by code_simp
  note t = decoder_exit_failure [OF h, of 0 "''/out''" False zero_tally "[]", unfolded Let_def]
  from t [THEN conjunct1] have r: "extract_rpf_recursive (Suc 0) ?env ''/g/a.rpf'' ''/out'' False ?fs
      = Some (Returned None (Some (''Extraction failed:'' @ [CHR 0x0A] @ ''bad header'')) [], ?fs)"
    by (simp add: d del: extract_rpf_recursive.simps decode_utf8.simps)
  from t [THEN conjunct2, THEN conjunct1] d
  have "sublist ''bad header'' (''Extraction failed:'' @ [CHR 0x0A] @ ''bad header'')"
    by (simp del: decode_utf8.simps)
  with r show ?thesis by (intro conjI)
qed

section \<open>Facts about paths and destination names\<close>

lemma digit_char_not_sep: "d < 10 \<Longrightarrow> digit_char d \<noteq> CHR ''/''"
proof
  assume d: "d < 10" and eq: "digit_char d = CHR ''/''"
  have "of_char (digit_char d) = (48 + d :: nat)"
    using d by (simp add: digit_char_def)
  with eq show False by simp
qed

lemma str_nat_no_sep: "CHR ''/'' \<notin> set (str_nat n)"
proof (induction n rule: str_nat.induct)
  case (1 n)
  show ?case
  proof (cases "n < 10")
    case True
    then show ?thesis
      using digit_char_not_sep [of n] by (auto simp: str_nat.simps [of n])
  next
    case False
    with 1 have "CHR ''/'' \<notin> set (str_nat (n div 10))" by simp
    moreover have "digit_char (n mod 10) \<noteq> CHR ''/''"
      by (rule digit_char_not_sep) simp
    ultimately show ?thesis
      using False by (auto simp: str_nat.simps [of n])
  qed
qed

lemma path_join_plain:
  assumes "d \<noteq> []" "last d \<noteq> CHR ''/''" "CHR ''/'' \<notin> set f"
  shows "path_join d f = d @ CHR ''/'' # f"
  using assms by (cases f) (auto simp: path_join_def)

lemma path_head_join:
  assumes "CHR ''/'' \<notin> set f"
  shows "path_head (d @ CHR ''/'' # f) = d @ [CHR ''/'']"
proof -
  have "dropWhile (\<lambda>c. c \<noteq> CHR ''/'') (rev f @ CHR ''/'' # rev d) = CHR ''/'' # rev d"
    using assms by (subst dropWhile_append2) auto
  then show ?thesis by (simp add: path_head_def)
qed

lemma rstrip_sep_plain:
  assumes "d \<noteq> []" "last d \<noteq> CHR ''/''"
  shows "rstrip_sep (d @ [CHR ''/'']) = d"
proof -
  from assms have "hd (rev d) \<noteq> CHR ''/''" by (simp add: hd_rev)
  moreover from assms have "rev d \<noteq> []" by simp
  ultimately have "dropWhile (\<lambda>c. c = CHR ''/'') (rev d) = rev d"
    by (cases "rev d") auto
  then show ?thesis by (simp add: rstrip_sep_def)
qed

lemma dirname_join:
  assumes "d \<noteq> []" "last d \<noteq> CHR ''/''" "CHR ''/'' \<notin> set f"
  shows "dirname (path_join d f) = d"
proof -
  from assms(1,2) have "last d \<in> set d" "last d \<noteq> CHR ''/''" by simp_all
  then have "filter (\<lambda>c. c \<noteq> CHR ''/'') d \<noteq> []"
    by (auto simp: filter_empty_conv)
  then show ?thesis
    using assms by (simp add: dirname_def path_join_plain path_head_join rstrip_sep_plain)
qed

lemma basename_plain:
  assumes "CHR ''/'' \<notin> set f"
  shows "basename f = f"
proof -
  have t: "takeWhile (\<lambda>c. c \<noteq> CHR ''/'') (rev f) = rev f"
    using assms by (auto simp: takeWhile_eq_all_conv)
  show ?thesis unfolding basename_def t by simp
qed

lemma path_head_plain: "CHR ''/'' \<notin> set f \<Longrightarrow> path_head f = []"
  by (auto simp: path_head_def)


lemma free_dest_free: "\<not> path_exists fs (free_dest fs b e p k)"
proof (induction fs b e p k rule: free_dest.induct)
  case (1 fs b e p k)
  then show ?case by (simp add: free_dest.simps [of fs b e p k])
qed

lemma choose_dest_free: "\<not> path_exists fs (choose_dest fs p file)"
  by (simp add: choose_dest_def free_dest_free split: prod.splits)


lemma map_of_write_other: "q \<noteq> p \<Longrightarrow> map_of (write_file fs p n) q = map_of fs q"
  by (simp add: write_file_def)

lemma write_fresh_keeps:
  assumes "\<not> path_exists fs p" "map_of fs q = Some e"
  shows "map_of (write_file fs p n) q = Some e"
  using assms by (auto simp: write_file_def path_exists_def)

lemma process_file_keeps:
  assumes "map_of (fsys st) q = Some e"
  shows "map_of (fsys (process_file env stream_dir data_dir root important st file)) q = Some e"
  using assms choose_dest_free [of "fsys st"]
  by (auto simp: process_file_def Let_def write_fresh_keeps
           split: classification.splits option.splits copy_outcome.splits)








lemma process_root_ignored:
  "is_ignored root \<Longrightarrow> process_root env stream_dir data_dir st (root, files) = st"
  by (simp add: process_root_def)

lemma process_root_no_files: "process_root env stream_dir data_dir st (root, []) = st"
  by (simp add: process_root_def)

lemma foldl_process_root_filter:
  "foldl (process_root env stream_dir data_dir) st (filter (\<lambda>rf. \<not> is_ignored (fst rf)) walk)
     = foldl (process_root env stream_dir data_dir) st walk"
proof (induction walk arbitrary: st)
  case Nil
  show ?case by simp
next
  case (Cons rf walk)
  then show ?case
    by (cases rf) (simp add: process_root_ignored)
qed

lemma foldl_process_root_empty:
  "sum_list (map (\<lambda>rf. length (snd rf)) walk) = 0
     \<Longrightarrow> foldl (process_root env stream_dir data_dir) st walk = st"
proof (induction walk arbitrary: st)
  case Nil
  show ?case by simp
next
  case (Cons rf walk)
  then show ?case
    by (cases rf) (simp add: process_root_no_files)
qed

lemma move_files_run:
  "move_files env walk stream_dir data_dir fs
     = (moved (foldl (process_root env stream_dir data_dir) \<lparr>moved = zero_tally, fsys = fs\<rparr> walk),
        fsys (foldl (process_root env stream_dir data_dir) \<lparr>moved = zero_tally, fsys = fs\<rparr> walk))"
proof (cases "sum_list (map (\<lambda>rf. length (snd rf)) walk) = 0")
  case True
  from foldl_process_root_empty [OF True]
  have "foldl (process_root env stream_dir data_dir) \<lparr>moved = zero_tally, fsys = fs\<rparr> walk
      = \<lparr>moved = zero_tally, fsys = fs\<rparr>" .
  with True show ?thesis by (simp add: move_files_def)
next
  case False
  then show ?thesis by (auto simp: move_files_def Let_def)
qed

lemma move_files_filter:
  "move_files env (filter (\<lambda>rf. \<not> is_ignored (fst rf)) walk) stream_dir data_dir fs
     = move_files env walk stream_dir data_dir fs"
  by (simp add: move_files_run foldl_process_root_filter)

section \<open>Ignored directories\<close>

text \<open>
  C5, as the code has it. The claim that every file below an ignored folder adds one to the
  skipped count fails: line 112 passes over the whole directory before the inner loop, so
  the two files of \<open>dlc/audio\<close> are neither moved nor counted.
\<close>

theorem ignored_counted_counterexample:
  "is_ignored ''dlc/audio''
   \<and> move_files quiet_env [(''dlc/audio'', [''a.yft'', ''b.meta''])] ''out/stream'' ''out/data''
        [(''dlc/audio/a.yft'', File 3), (''dlc/audio/b.meta'', File 2)]
     = (\<lparr>stream = 0, data = 0, skipped = 0\<rparr>,
        [(''dlc/audio/a.yft'', File 3), (''dlc/audio/b.meta'', File 2)])"
proof -
  have "is_ignored ''dlc/audio''" by code_simp
  then show ?thesis
    by (simp add: move_files_def process_root_def zero_tally_def)
qed

text \<open>
  C5, amended: the files of a directory whose path contains an ignored folder name are not
  moved into either bucket and are not counted at all. The pass leaves the tally and the
  file system as they were for such a directory, and the result of the whole pass is the
  result for the walk without the ignored directories, so the skipped count does not include
  their files.
\<close>

theorem ignored_not_counted:
  "(is_ignored root \<longrightarrow> process_root env stream_dir data_dir st (root, files) = st)
   \<and> move_files env walk stream_dir data_dir fs
       = move_files env (filter (\<lambda>rf. \<not> is_ignored (fst rf)) walk) stream_dir data_dir fs"
  by (simp add: process_root_ignored move_files_filter)

theorem ignored_not_counted_witness:
  "process_root quiet_env ''out/stream'' ''out/data''
       \<lparr>moved = zero_tally, fsys = [(''dlc/audio/a.yft'', File 3)]\<rparr> (''dlc/audio'', [''a.yft''])
     = \<lparr>moved = zero_tally, fsys = [(''dlc/audio/a.yft'', File 3)]\<rparr>
   \<and> move_files quiet_env [(''dlc/audio'', [''a.yft'']), (''dlc/x'', [''q.zip''])]
        ''out/stream'' ''out/data'' [(''dlc/audio/a.yft'', File 3), (''dlc/x/q.zip'', File 1)]
     = move_files quiet_env [(''dlc/x'', [''q.zip''])]
        ''out/stream'' ''out/data'' [(''dlc/audio/a.yft'', File 3), (''dlc/x/q.zip'', File 1)]"
proof -
  have a: "is_ignored ''dlc/audio''" by code_simp
  have b: "\<not> is_ignored ''dlc/x''" by code_simp
  note t = ignored_not_counted [of "''dlc/audio''" quiet_env "''out/stream''" "''out/data''"
      "\<lparr>moved = zero_tally, fsys = [(''dlc/audio/a.yft'', File 3)]\<rparr>" "[''a.yft'']"
      "[(''dlc/audio'', [''a.yft'']), (''dlc/x'', [''q.zip''])]"
      "[(''dlc/audio/a.yft'', File 3), (''dlc/x/q.zip'', File 1)]"]
  from t [THEN conjunct1] a t [THEN conjunct2] b show ?thesis by simp
qed

lemma splitext_no_sep:
  assumes "CHR ''/'' \<notin> set file"
  shows "CHR ''/'' \<notin> set (fst (splitext file)) \<and> CHR ''/'' \<notin> set (snd (splitext file))"
proof -
  have b: "basename file = file" and h: "path_head file = []"
    using assms by (rule basename_plain, rule path_head_plain)
  have "set (tl (dropWhile (\<lambda>c. c \<noteq> CHR ''.'') (rev file))) \<subseteq> set file"
    by (metis list.set_sel(2) set_dropWhileD set_rev subsetI tl_Nil)
  moreover have "set (takeWhile (\<lambda>c. c \<noteq> CHR ''.'') (rev file)) \<subseteq> set file"
    by (metis set_rev set_takeWhileD subsetI)
  ultimately show ?thesis
    using assms by (auto simp: splitext_def b h Let_def)
qed

lemma free_dest_dirname:
  assumes "d \<noteq> []" "last d \<noteq> CHR ''/''" "CHR ''/'' \<notin> set base" "CHR ''/'' \<notin> set ext"
    and "dirname p = d"
  shows "dirname (free_dest fs base ext p c) = d"
  using assms
proof (induction fs base ext p c rule: free_dest.induct)
  case (1 fs b e p k)
  show ?case
  proof (cases "path_exists fs p")
    case True
    have "CHR ''/'' \<notin> set (b @ ''_'' @ str_nat k @ e)"
      using 1 str_nat_no_sep by simp
    with 1 have "dirname (path_join (dirname p) (b @ ''_'' @ str_nat k @ e)) = d"
      by (simp add: dirname_join)
    with 1 True show ?thesis
      by (simp add: free_dest.simps [of fs b e p k])
  next
    case False
    with 1 show ?thesis by (simp add: free_dest.simps [of fs b e p k])
  qed
qed

lemma choose_dest_dirname:
  assumes "d \<noteq> []" "last d \<noteq> CHR ''/''" "CHR ''/'' \<notin> set file"
  shows "dirname (choose_dest fs (path_join d file) file) = d"
proof -
  have dp: "dirname (path_join d file) = d" using assms by (rule dirname_join)
  obtain b e where s: "splitext file = (b, e)" by (cases "splitext file")
  with splitext_no_sep [OF assms(3)] have "CHR ''/'' \<notin> set b" "CHR ''/'' \<notin> set e" by simp_all
  with assms(1,2) have "dirname (free_dest fs b e (path_join d file) 1) = d"
    using dp by (rule free_dest_dirname)
  with dp s show ?thesis by (simp add: choose_dest_def)
qed

lemma process_file_mismatch:
  assumes "classify important (ext_of file) = MoveTo b"
    and "getsize (fsys st) (path_join root file) = Some src_size"
    and "copy_io env (fsys st) (path_join root file)
           (choose_dest (fsys st) (path_join (bucket_dir stream_dir data_dir b) file) file)
         = Copied dest_size"
    and "src_size \<noteq> dest_size"
  shows "process_file env stream_dir data_dir root important st file
     = \<lparr>moved = skip_one (moved st),
        fsys = write_file (fsys st)
                 (choose_dest (fsys st) (path_join (bucket_dir stream_dir data_dir b) file) file)
                 dest_size\<rparr>"
  using assms by (simp add: process_file_def Let_def getsize_def write_file_def)

lemma foldl_process_file_keeps:
  assumes "map_of (fsys st) q = Some e"
  shows "map_of (fsys (foldl (process_file env stream_dir data_dir root important) st files)) q
           = Some e"
  using assms by (induction files arbitrary: st) (simp_all add: process_file_keeps)

lemma process_root_keeps:
  assumes "map_of (fsys st) q = Some e"
  shows "map_of (fsys (process_root env stream_dir data_dir st rf)) q = Some e"
  using assms by (simp add: process_root_def Let_def foldl_process_file_keeps)

lemma foldl_process_root_keeps:
  assumes "map_of (fsys st) q = Some e"
  shows "map_of (fsys (foldl (process_root env stream_dir data_dir) st walk)) q = Some e"
  using assms by (induction walk arbitrary: st) (simp_all add: process_root_keeps)


section \<open>Size mismatch after the copy\<close>



text \<open>
  C10: when the size comparison fails, the destination written by the copy stays where it
  is, with its wrong size, while the file is counted as skipped: it was created by this
  copy, it is there after the file has been processed and still there at the end of the
  directory and of the walk, and it lies in the bucket directory.
\<close>

theorem mismatch_copy_left:
  assumes "classify important (ext_of file) = MoveTo b"
    and "getsize (fsys st) (path_join root file) = Some src_size"
    and "copy_io env (fsys st) (path_join root file)
           (choose_dest (fsys st) (path_join (bucket_dir stream_dir data_dir b) file) file)
         = Copied dest_size"
    and "src_size \<noteq> dest_size"
  shows "(let dest = choose_dest (fsys st) (path_join (bucket_dir stream_dir data_dir b) file) file;
              st' = process_file env stream_dir data_dir root important st file
          in \<not> path_exists (fsys st) dest
           \<and> fsys st' = write_file (fsys st) dest dest_size
           \<and> getsize (fsys st') dest = Some dest_size
           \<and> moved st' = skip_one (moved st)
           \<and> getsize (fsys (foldl (process_file env stream_dir data_dir root important) st' rest))
                dest = Some dest_size
           \<and> getsize (fsys (foldl (process_root env stream_dir data_dir) st' walk)) dest
               = Some dest_size
           \<and> (bucket_dir stream_dir data_dir b \<noteq> []
                \<and> last (bucket_dir stream_dir data_dir b) \<noteq> CHR ''/'' \<and> CHR ''/'' \<notin> set file
              \<longrightarrow> dirname dest = bucket_dir stream_dir data_dir b))"
proof -
  let ?dest = "choose_dest (fsys st) (path_join (bucket_dir stream_dir data_dir b) file) file"
  let ?st' = "process_file env stream_dir data_dir root important st file"
  have st': "?st' = \<lparr>moved = skip_one (moved st), fsys = write_file (fsys st) ?dest dest_size\<rparr>"
    using assms by (rule process_file_mismatch)
  have m: "map_of (fsys ?st') ?dest = Some (File dest_size)"
    by (simp add: st' write_file_def)
  have "map_of (fsys (foldl (process_file env stream_dir data_dir root important) ?st' rest)) ?dest
      = Some (File dest_size)"
    using m by (rule foldl_process_file_keeps)
  moreover have "map_of (fsys (foldl (process_root env stream_dir data_dir) ?st' walk)) ?dest
      = Some (File dest_size)"
    using m by (rule foldl_process_root_keeps)
  moreover have "\<not> path_exists (fsys st) ?dest" by (rule choose_dest_free)
  ultimately show ?thesis
    using m by (simp add: Let_def st' getsize_def choose_dest_dirname)
qed

theorem mismatch_copy_left_witness:
  "fsys (process_file (quiet_env\<lparr>copy_io := (\<lambda>fs src dst. Copied 1)\<rparr>)
         ''out/stream'' ''out/data'' ''dlc/x'' False
         \<lparr>moved = zero_tally, fsys = [(''dlc/x/a.yft'', File 3)]\<rparr> ''a.yft'')
     = [(''out/stream/a.yft'', File 1), (''dlc/x/a.yft'', File 3)]
   \<and> moved (process_file (quiet_env\<lparr>copy_io := (\<lambda>fs src dst. Copied 1)\<rparr>)
         ''out/stream'' ''out/data'' ''dlc/x'' False
         \<lparr>moved = zero_tally, fsys = [(''dlc/x/a.yft'', File 3)]\<rparr> ''a.yft'')
     = \<lparr>stream = 0, data = 0, skipped = 1\<rparr>"
proof -
  let ?env = "quiet_env\<lparr>copy_io := (\<lambda>fs src dst. Copied 1)\<rparr>"
  let ?fs = "[(''dlc/x/a.yft'', File 3)]"
  let ?st = "\<lparr>moved = zero_tally, fsys = ?fs\<rparr>"
  have h1: "classify False (ext_of ''a.yft'') = MoveTo Stream" by code_simp
  have h2: "getsize (fsys ?st) (path_join ''dlc/x'' ''a.yft'') = Some 3"
    by (simp add: getsize_def path_join_def)
  have h3: "copy_io ?env (fsys ?st) (path_join ''dlc/x'' ''a.yft'')
      (choose_dest (fsys ?st) (path_join (bucket_dir ''out/stream'' ''out/data'' Stream) ''a.yft'')
         ''a.yft'') = Copied 1"
    by simp
  have h4: "(3::nat) \<noteq> 1" by simp
  have d: "choose_dest ?fs (path_join (bucket_dir ''out/stream'' ''out/data'' Stream) ''a.yft'')
      ''a.yft'' = ''out/stream/a.yft''"
    by (simp add: choose_dest_def path_exists_def bucket_dir_def path_join_def)
  note t = mismatch_copy_left [OF h1 h2 h3 h4, of "[]" "[]", unfolded Let_def]
  from t [THEN conjunct2, THEN conjunct1] t [THEN conjunct2, THEN conjunct2, THEN conjunct2, THEN conjunct1]
  show ?thesis
    by (simp add: d write_file_def skip_one_def zero_tally_def)
qed

section \<open>Ownership of the buckets\<close>






























end
